theory Spec2Isabelle
  imports
    Complex_Main
    "HOL-Library.Sublist"
    "HOL-Library.Char_ord"
    "HOL-Library.List_Lexorder"
    "HOL-Library.AList"
begin

section \<open>Python string operations used by the file manager\<close>

text \<open>
  Keys and paths are Python \<^verbatim>\<open>str\<close> values, modelled as \<^typ>\<open>string\<close>.
  \<^verbatim>\<open>s.startswith(p)\<close> and \<^verbatim>\<open>s.endswith(p)\<close> are prefix and suffix tests,
  \<^verbatim>\<open>s.rstrip('/')\<close> removes every trailing slash, \<^verbatim>\<open>s.strip('/')\<close> removes every
  leading and every trailing slash.
\<close>

definition startswith :: "string \<Rightarrow> string \<Rightarrow> bool" where
  "startswith s p = prefix p s"

definition endswith :: "string \<Rightarrow> string \<Rightarrow> bool" where
  "endswith s p = prefix (rev p) (rev s)"

definition rstrip :: "char \<Rightarrow> string \<Rightarrow> string" where
  "rstrip c s = rev (dropWhile (\<lambda>x. x = c) (rev s))"

definition strip :: "char \<Rightarrow> string \<Rightarrow> string" where
  "strip c s = dropWhile (\<lambda>x. x = c) (rstrip c s)"

text \<open>A string that neither starts nor ends with the character \<open>c\<close>.\<close>

definition trimmed :: "char \<Rightarrow> string \<Rightarrow> bool" where
  "trimmed c s = (\<not> startswith s [c] \<and> \<not> endswith s [c])"

section \<open>The path formatter\<close>

text \<open>
  \<^verbatim>\<open>S3Manager.format_path\<close> (app.py). The argument is \<^verbatim>\<open>None\<close> or a string;
  \<^verbatim>\<open>if not path\<close> holds for \<^verbatim>\<open>None\<close> and for the empty string.
  \<^verbatim>\<open>
    if not path:
        return self.app_prefix + "/"
    path = path.strip("/")
    if not path.startswith(self.app_prefix):
        path = f"{self.app_prefix}/{path}"
    if not path.endswith("/"):
        path += "/"
    return path
  \<close>
\<close>

definition format_path :: "string \<Rightarrow> string option \<Rightarrow> string" where
  "format_path app_prefix path =
     (case path of
        None \<Rightarrow> app_prefix @ ''/''
      | Some p \<Rightarrow>
          if p = [] then app_prefix @ ''/''
          else if \<not> startswith (strip CHR ''/'' p) app_prefix
          then (if \<not> endswith (app_prefix @ ''/'' @ strip CHR ''/'' p) ''/''
                then (app_prefix @ ''/'' @ strip CHR ''/'' p) @ ''/''
                else app_prefix @ ''/'' @ strip CHR ''/'' p)
          else (if \<not> endswith (strip CHR ''/'' p) ''/''
                then strip CHR ''/'' p @ ''/''
                else strip CHR ''/'' p))"

text \<open>\<^verbatim>\<open>S3AdvancedManager._format_path\<close> (utils/s3_advanced.py) repeats the same body.\<close>

definition adv_format_path :: "string \<Rightarrow> string option \<Rightarrow> string" where
  "adv_format_path app_prefix path =
     (case path of
        None \<Rightarrow> app_prefix @ ''/''
      | Some p \<Rightarrow>
          if p = [] then app_prefix @ ''/''
          else if \<not> startswith (strip CHR ''/'' p) app_prefix
          then (if \<not> endswith (app_prefix @ ''/'' @ strip CHR ''/'' p) ''/''
                then (app_prefix @ ''/'' @ strip CHR ''/'' p) @ ''/''
                else app_prefix @ ''/'' @ strip CHR ''/'' p)
          else (if \<not> endswith (strip CHR ''/'' p) ''/''
                then strip CHR ''/'' p @ ''/''
                else strip CHR ''/'' p))"

text \<open>
  The inputs on which the formatter leaves the root prefix without its slash: the stripped
  input starts with the characters of the root prefix, and what follows them is neither
  the end of the string nor a slash (\<^verbatim>\<open>"rootfoo"\<close> for the root \<^verbatim>\<open>"root"\<close>).
\<close>

definition root_lookalike :: "string \<Rightarrow> string option \<Rightarrow> bool" where
  "root_lookalike app_prefix path =
     (case path of
        None \<Rightarrow> False
      | Some p \<Rightarrow>
          p \<noteq> [] \<and> startswith (strip CHR ''/'' p) app_prefix
          \<and> \<not> startswith (strip CHR ''/'' p @ ''/'') (app_prefix @ ''/''))"

text \<open>
  A path in the formatter's output form: it ends with a slash, and what precedes that
  final slash starts with the root prefix and neither starts nor ends with a slash.
\<close>

definition canonical_path :: "string \<Rightarrow> string \<Rightarrow> bool" where
  "canonical_path app_prefix q =
     (endswith q ''/'' \<and> trimmed CHR ''/'' (butlast q) \<and> startswith (butlast q) app_prefix)"

section \<open>The size formatter\<close>

text \<open>
  Errors are values: the gateway's faults and the Python exceptions the code can meet.
\<close>

datatype error = TransferFault | NotFound | InvalidRequest | OverflowError | DecodeError

text \<open>
  \<^verbatim>\<open>format_size\<close> starts with an \<^verbatim>\<open>int\<close> and, after the first
  \<^verbatim>\<open>size_bytes /= 1024.0\<close>, holds a \<^verbatim>\<open>float\<close>. A float is modelled by the rational
  number it denotes. Converting an \<^verbatim>\<open>int\<close> to a float rounds it to 53 significant bits,
  ties to even, and raises \<^verbatim>\<open>OverflowError\<close> when the rounded value reaches \<open>2^1024\<close>.
  Dividing a float that is at least 1024 by 1024 is exact.
\<close>

datatype pynum = PyInt int | PyFloat rat

fun shift53 :: "nat \<Rightarrow> nat" where
  "shift53 m = (if m < 2 ^ 53 then 0 else Suc (shift53 (m div 2)))"

declare shift53.simps [simp del]

definition round53 :: "nat \<Rightarrow> nat" where
  "round53 m =
     (if 2 * (m mod 2 ^ shift53 m) > 2 ^ shift53 m
         \<or> (2 * (m mod 2 ^ shift53 m) = 2 ^ shift53 m \<and> odd (m div 2 ^ shift53 m))
      then (m div 2 ^ shift53 m + 1) * 2 ^ shift53 m
      else (m div 2 ^ shift53 m) * 2 ^ shift53 m)"

definition float_of_int :: "int \<Rightarrow> error + rat" where
  "float_of_int n =
     (if round53 (nat \<bar>n\<bar>) \<ge> 2 ^ 1024 then Inl OverflowError
      else Inr (of_int (sgn n) * of_nat (round53 (nat \<bar>n\<bar>))))"

fun as_float :: "pynum \<Rightarrow> error + rat" where
  "as_float (PyInt n) = float_of_int n"
| "as_float (PyFloat x) = Inr x"

fun lt_float :: "pynum \<Rightarrow> rat \<Rightarrow> bool" where
  "lt_float (PyInt n) y = (of_int n < y)"
| "lt_float (PyFloat x) y = (x < y)"

definition truediv :: "pynum \<Rightarrow> rat \<Rightarrow> error + pynum" where
  "truediv v y = (case as_float v of Inl e \<Rightarrow> Inl e | Inr x \<Rightarrow> Inr (PyFloat (x / y)))"

text \<open>
  \<^verbatim>\<open>f"{x:.1f}"\<close>: the decimal rendering with one digit after the point, correctly
  rounded (ties to even) from the exact value of the float.
\<close>

definition round_half_even :: "rat \<Rightarrow> int" where
  "round_half_even x =
     (if x - of_int \<lfloor>x\<rfloor> > 1 / 2 \<or> (x - of_int \<lfloor>x\<rfloor> = 1 / 2 \<and> odd \<lfloor>x\<rfloor>)
      then \<lfloor>x\<rfloor> + 1 else \<lfloor>x\<rfloor>)"

definition digit_char :: "nat \<Rightarrow> char" where
  "digit_char d = ''0123456789'' ! d"

fun str_nat :: "nat \<Rightarrow> string" where
  "str_nat n = (if n < 10 then [digit_char n] else str_nat (n div 10) @ [digit_char (n mod 10)])"

declare str_nat.simps [simp del]

definition fixed1 :: "rat \<Rightarrow> string" where
  "fixed1 x =
     (if x < 0 then ''-'' else [])
     @ str_nat (nat (round_half_even (\<bar>x\<bar> * 10)) div 10)
     @ ''.''
     @ [digit_char (nat (round_half_even (\<bar>x\<bar> * 10)) mod 10)]"

definition fmt_1f :: "pynum \<Rightarrow> error + string" where
  "fmt_1f v = (case as_float v of Inl e \<Rightarrow> Inl e | Inr x \<Rightarrow> Inr (fixed1 x))"

text \<open>
  \<^verbatim>\<open>S3Manager.format_size\<close> (app.py):
  \<^verbatim>\<open>
    for unit in ['B', 'KB', 'MB', 'GB', 'TB']:
        if size_bytes < 1024.0:
            return f"{size_bytes:.1f} {unit}"
        size_bytes /= 1024.0
    return f"{size_bytes:.1f} PB"
  \<close>
\<close>

fun format_size_loop :: "pynum \<Rightarrow> string list \<Rightarrow> error + string" where
  "format_size_loop size_bytes [] =
     (case fmt_1f size_bytes of Inl e \<Rightarrow> Inl e | Inr d \<Rightarrow> Inr (d @ '' PB''))"
| "format_size_loop size_bytes (unit # units) =
     (if lt_float size_bytes 1024
      then (case fmt_1f size_bytes of Inl e \<Rightarrow> Inl e | Inr d \<Rightarrow> Inr (d @ '' '' @ unit))
      else (case truediv size_bytes 1024 of
              Inl e \<Rightarrow> Inl e
            | Inr q \<Rightarrow> format_size_loop q units))"

definition format_size :: "int \<Rightarrow> error + string" where
  "format_size size_bytes = format_size_loop (PyInt size_bytes) [''B'', ''KB'', ''MB'', ''GB'', ''TB'']"

text \<open>\<^verbatim>\<open>S3AdvancedManager._format_size\<close> (utils/s3_advanced.py) repeats the same body.\<close>

definition adv_format_size :: "int \<Rightarrow> error + string" where
  "adv_format_size size_bytes =
     format_size_loop (PyInt size_bytes) [''B'', ''KB'', ''MB'', ''GB'', ''TB'']"

section \<open>The object store behind the gateway\<close>

text \<open>
  The bucket is a finite map from keys to objects, kept as an association list. Every call
  of the client is recorded in \<open>trace\<close>, in the order issued. \<open>faults\<close> scripts the
  outcome of the calls to come: its head says whether the next call raises (a network or
  service fault), and once it is used up no call faults any more. \<open>clock\<close> is the
  timestamp the service gives to an object it writes.
\<close>

type_synonym key = string

record s3_object =
  body :: string
  content_type :: "string option"
  last_modified :: string
  etag :: "string option"
  storage_class :: "string option"
  user_metadata :: "(string \<times> string) list"

datatype listing = Object key | CommonPrefix key

datatype request =
    ListObjectsV2 key bool "listing option"
  | GetObject key
  | PutObject key
  | DeleteObject key
  | DeleteObjects "key list"
  | CopyObject key key
  | HeadObject key

record s3 =
  objects :: "(key \<times> s3_object) list"
  trace :: "request list"
  faults :: "bool list"
  clock :: string

definition lookup :: "s3 \<Rightarrow> key \<Rightarrow> s3_object option" where
  "lookup s k = map_of (objects s) k"

text \<open>Issue a request: log it and consume one entry of the fault script.\<close>

definition call :: "request \<Rightarrow> s3 \<Rightarrow> bool \<times> s3" where
  "call r s =
     (case faults s of
        [] \<Rightarrow> (False, s\<lparr>trace := trace s @ [r]\<rparr>)
      | f # fs \<Rightarrow> (f, s\<lparr>trace := trace s @ [r], faults := fs\<rparr>))"

text \<open>
  \<^verbatim>\<open>list_objects_v2\<close> returns the keys that start with the prefix, in ascending order
  of their bytes, at most \<open>max_keys\<close> entries per response. A continuation token resumes
  after the last entry of the previous response. With the delimiter \<^verbatim>\<open>'/'\<close>, the keys
  that have a slash after the prefix are rolled up into one common prefix each.
\<close>

definition max_keys :: nat where
  "max_keys = 1000"

fun beyond :: "listing option \<Rightarrow> key \<Rightarrow> bool" where
  "beyond None k = True"
| "beyond (Some (Object t)) k = (t < k)"
| "beyond (Some (CommonPrefix p)) k = (p < k \<and> \<not> startswith k p)"

definition keys_after :: "s3 \<Rightarrow> key \<Rightarrow> listing option \<Rightarrow> key list" where
  "keys_after s pre tok =
     sort (remdups (filter (\<lambda>k. startswith k pre \<and> beyond tok k) (map fst (objects s))))"

definition rollup :: "key \<Rightarrow> key \<Rightarrow> listing" where
  "rollup pre k =
     (if CHR ''/'' \<in> set (drop (length pre) k)
      then CommonPrefix (pre @ takeWhile (\<lambda>c. c \<noteq> CHR ''/'') (drop (length pre) k) @ ''/'')
      else Object k)"

record list_response =
  contents :: "(key \<times> s3_object) list"
  common_prefixes :: "key list"
  next_token :: "listing option"

fun content_of :: "s3 \<Rightarrow> listing \<Rightarrow> (key \<times> s3_object) list" where
  "content_of s (Object k) = (case lookup s k of None \<Rightarrow> [] | Some ob \<Rightarrow> [(k, ob)])"
| "content_of s (CommonPrefix p) = []"

fun prefix_of :: "listing \<Rightarrow> key list" where
  "prefix_of (Object k) = []"
| "prefix_of (CommonPrefix p) = [p]"

definition entries_after :: "s3 \<Rightarrow> key \<Rightarrow> bool \<Rightarrow> listing option \<Rightarrow> listing list" where
  "entries_after s pre delimiter tok =
     (if delimiter then remdups (map (rollup pre) (keys_after s pre tok))
      else map Object (keys_after s pre tok))"

definition list_page :: "s3 \<Rightarrow> key \<Rightarrow> bool \<Rightarrow> listing option \<Rightarrow> list_response" where
  "list_page s pre delimiter tok =
     \<lparr>contents = concat (map (content_of s) (take max_keys (entries_after s pre delimiter tok))),
      common_prefixes = concat (map prefix_of (take max_keys (entries_after s pre delimiter tok))),
      next_token =
        (if max_keys < length (entries_after s pre delimiter tok)
         then Some (last (take max_keys (entries_after s pre delimiter tok)))
         else None)\<rparr>"

definition s3_list_objects_v2 ::
  "key \<Rightarrow> bool \<Rightarrow> listing option \<Rightarrow> s3 \<Rightarrow> (error + list_response) \<times> s3" where
  "s3_list_objects_v2 pre delimiter tok s =
     (case call (ListObjectsV2 pre delimiter tok) s of
        (True, s') \<Rightarrow> (Inl TransferFault, s')
      | (False, s') \<Rightarrow> (Inr (list_page s' pre delimiter tok), s'))"




definition s3_get_object :: "key \<Rightarrow> s3 \<Rightarrow> (error + string) \<times> s3" where
  "s3_get_object k s =
     (case call (GetObject k) s of
        (True, s') \<Rightarrow> (Inl TransferFault, s')
      | (False, s') \<Rightarrow>
          (case lookup s' k of
             None \<Rightarrow> (Inl NotFound, s')
           | Some ob \<Rightarrow> (Inr (body ob), s')))"

definition s3_put_object :: "key \<Rightarrow> string \<Rightarrow> s3 \<Rightarrow> (error + unit) \<times> s3" where
  "s3_put_object k data s =
     (case call (PutObject k) s of
        (True, s') \<Rightarrow> (Inl TransferFault, s')
      | (False, s') \<Rightarrow>
          (Inr (),
           s'\<lparr>objects :=
                 AList.update k
                   \<lparr>body = data, content_type = None, last_modified = clock s', etag = None,
                    storage_class = None, user_metadata = []\<rparr>
                   (objects s')\<rparr>))"

definition s3_delete_object :: "key \<Rightarrow> s3 \<Rightarrow> (error + unit) \<times> s3" where
  "s3_delete_object k s =
     (case call (DeleteObject k) s of
        (True, s') \<Rightarrow> (Inl TransferFault, s')
      | (False, s') \<Rightarrow> (Inr (), s'\<lparr>objects := AList.delete k (objects s')\<rparr>))"

definition s3_delete_objects :: "key list \<Rightarrow> s3 \<Rightarrow> (error + unit) \<times> s3" where
  "s3_delete_objects ks s =
     (case call (DeleteObjects ks) s of
        (True, s') \<Rightarrow> (Inl TransferFault, s')
      | (False, s') \<Rightarrow>
          (Inr (), s'\<lparr>objects := filter (\<lambda>(k, ob). k \<notin> set ks) (objects s')\<rparr>))"

text \<open>
  \<^verbatim>\<open>copy_object\<close> fails when the source key is absent, and the service rejects a copy of
  an object onto itself that changes nothing. The copy keeps the body and the metadata of
  the source and gets a new timestamp.
\<close>

definition s3_copy_object :: "key \<Rightarrow> key \<Rightarrow> s3 \<Rightarrow> (error + unit) \<times> s3" where
  "s3_copy_object src dst s =
     (case call (CopyObject src dst) s of
        (True, s') \<Rightarrow> (Inl TransferFault, s')
      | (False, s') \<Rightarrow>
          (case lookup s' src of
             None \<Rightarrow> (Inl NotFound, s')
           | Some ob \<Rightarrow>
               if src = dst then (Inl InvalidRequest, s')
               else (Inr (),
                     s'\<lparr>objects :=
                           AList.update dst (ob\<lparr>last_modified := clock s'\<rparr>) (objects s')\<rparr>)))"

text \<open>\<^verbatim>\<open>str(e)\<close> of a caught exception.\<close>

fun error_text :: "error \<Rightarrow> string" where
  "error_text TransferFault = ''An error occurred when calling the service''"
| "error_text NotFound = ''Not Found''"
| "error_text InvalidRequest = ''Invalid request''"
| "error_text OverflowError = ''int too large to convert to float''"
| "error_text DecodeError = ''codec cannot decode the data''"

section \<open>More Python string operations\<close>

text \<open>
  \<^verbatim>\<open>s.split(c)\<close> for a one-character separator (the result is never empty),
  \<^verbatim>\<open>sep.join(parts)\<close>, \<^verbatim>\<open>s.replace(old, new, 1)\<close> (the leftmost occurrence only) and
  \<^verbatim>\<open>s.lower()\<close> on ASCII letters. \<^verbatim>\<open>a in b\<close> on strings is \<^const>\<open>sublist\<close>.
\<close>

fun split :: "char \<Rightarrow> string \<Rightarrow> string list" where
  "split c [] = [[]]"
| "split c (x # xs) =
     (if x = c then [] # split c xs
      else (case split c xs of [] \<Rightarrow> [[x]] | w # ws \<Rightarrow> (x # w) # ws))"

fun join :: "string \<Rightarrow> string list \<Rightarrow> string" where
  "join sep [] = []"
| "join sep [w] = w"
| "join sep (w # v # ws) = w @ sep @ join sep (v # ws)"

fun replace_first :: "string \<Rightarrow> string \<Rightarrow> string \<Rightarrow> string" where
  "replace_first old new [] = (if old = [] then new else [])"
| "replace_first old new (x # xs) =
     (if startswith (x # xs) old then new @ drop (length old) (x # xs)
      else x # replace_first old new xs)"

definition lower_char :: "char \<Rightarrow> char" where
  "lower_char c =
     (if CHR ''A'' \<le> c \<and> c \<le> CHR ''Z'' then char_of (of_char c + (32::nat)) else c)"

definition lower :: "string \<Rightarrow> string" where
  "lower s = map lower_char s"

text \<open>Python truthiness of an optional string: neither \<^verbatim>\<open>None\<close> nor empty.\<close>

fun truthy :: "string option \<Rightarrow> bool" where
  "truthy None = False"
| "truthy (Some p) = (p \<noteq> [])"

section \<open>The file manager (app.py)\<close>

record s3_manager =
  app_prefix :: string
  connected :: bool

datatype entry_type = Folder | File

record entry =
  e_name :: string
  e_path :: key
  e_type :: entry_type
  e_size :: string
  e_size_bytes :: "int option"
  e_modified :: string

definition folder_entry :: "key \<Rightarrow> entry" where
  "folder_entry folder_path =
     \<lparr>e_name = last (split CHR ''/'' (rstrip CHR ''/'' folder_path)),
      e_path = folder_path, e_type = Folder, e_size = ''-'', e_size_bytes = None,
      e_modified = ''-''\<rparr>"

text \<open>
  The loop over \<^verbatim>\<open>response['Contents']\<close> in \<^verbatim>\<open>list_objects\<close>: the folder's own
  marker and nested markers are skipped.
\<close>

fun file_entries :: "key \<Rightarrow> (key \<times> s3_object) list \<Rightarrow> error + entry list" where
  "file_entries full_prefix [] = Inr []"
| "file_entries full_prefix ((k, ob) # rest) =
     (if k = full_prefix then file_entries full_prefix rest
      else if last (split CHR ''/'' k) = [] then file_entries full_prefix rest
      else (case format_size (int (length (body ob))) of
              Inl e \<Rightarrow> Inl e
            | Inr sz \<Rightarrow>
                (case file_entries full_prefix rest of
                   Inl e \<Rightarrow> Inl e
                 | Inr files \<Rightarrow>
                     Inr (\<lparr>e_name = last (split CHR ''/'' k), e_path = k, e_type = File,
                           e_size = sz, e_size_bytes = Some (int (length (body ob))),
                           e_modified = last_modified ob\<rparr> # files))))"

definition list_objects ::
  "s3_manager \<Rightarrow> string option \<Rightarrow> s3 \<Rightarrow> (entry list \<times> entry list) \<times> s3" where
  "list_objects m pfx s =
     (if \<not> connected m then (([], []), s)
      else
        (case s3_list_objects_v2
                (if truthy pfx then format_path (app_prefix m) pfx else app_prefix m @ ''/'')
                True None s of
           (Inl e, s') \<Rightarrow> (([], []), s')
         | (Inr response, s') \<Rightarrow>
             (case file_entries
                     (if truthy pfx then format_path (app_prefix m) pfx else app_prefix m @ ''/'')
                     (contents response) of
                Inl e \<Rightarrow> (([], []), s')
              | Inr files \<Rightarrow> ((map folder_entry (common_prefixes response), files), s'))))"

definition upload_file ::
  "s3_manager \<Rightarrow> string \<times> string \<Rightarrow> string option \<Rightarrow> s3 \<Rightarrow> (bool \<times> string) \<times> s3" where
  "upload_file m file path s =
     (if \<not> connected m then ((False, ''Not connected to S3''), s)
      else
        (case s3_put_object (format_path (app_prefix m) path @ fst file) (snd file) s of
           (Inl e, s') \<Rightarrow> ((False, ''Upload failed: '' @ error_text e), s')
         | (Inr u, s') \<Rightarrow> ((True, ''File '' @ fst file @ '' uploaded successfully''), s')))"

definition download_file ::
  "s3_manager \<Rightarrow> key \<Rightarrow> s3 \<Rightarrow> (string option \<times> string option) \<times> s3" where
  "download_file m file_path s =
     (if \<not> connected m then ((None, Some ''Not connected to S3''), s)
      else
        (case s3_get_object file_path s of
           (Inl e, s') \<Rightarrow> ((None, Some (''Download failed: '' @ error_text e)), s')
         | (Inr content, s') \<Rightarrow> ((Some content, None), s')))"

text \<open>
  \<^verbatim>\<open>S3Manager.delete_object\<close>: for a key that ends with a slash, one call of
  \<^verbatim>\<open>list_objects_v2\<close> (no paginator, no continuation token) and one bulk delete of the
  keys that response holds.
\<close>

definition delete_object :: "s3_manager \<Rightarrow> key \<Rightarrow> s3 \<Rightarrow> (bool \<times> string) \<times> s3" where
  "delete_object m object_path s =
     (if \<not> connected m then ((False, ''Not connected to S3''), s)
      else if endswith object_path ''/''
      then
        (case s3_list_objects_v2 object_path False None s of
           (Inl e, s') \<Rightarrow> ((False, ''Delete failed: '' @ error_text e), s')
         | (Inr response, s') \<Rightarrow>
             if contents response \<noteq> []
             then
               (case s3_delete_objects (map fst (contents response)) s' of
                  (Inl e, s'') \<Rightarrow> ((False, ''Delete failed: '' @ error_text e), s'')
                | (Inr u, s'') \<Rightarrow> ((True, ''Folder deleted successfully''), s''))
             else ((True, ''Folder deleted successfully''), s'))
      else
        (case s3_delete_object object_path s of
           (Inl e, s') \<Rightarrow> ((False, ''Delete failed: '' @ error_text e), s')
         | (Inr u, s') \<Rightarrow> ((True, ''File deleted successfully''), s')))"

definition create_folder ::
  "s3_manager \<Rightarrow> string \<Rightarrow> string option \<Rightarrow> s3 \<Rightarrow> (bool \<times> string) \<times> s3" where
  "create_folder m folder_name parent_path s =
     (if \<not> connected m then ((False, ''Not connected to S3''), s)
      else
        (case s3_put_object
                ((if truthy parent_path then format_path (app_prefix m) parent_path
                  else app_prefix m @ ''/'') @ folder_name @ ''/'')
                [] s of
           (Inl e, s') \<Rightarrow> ((False, ''Create folder failed: '' @ error_text e), s')
         | (Inr u, s') \<Rightarrow> ((True, ''Folder '' @ folder_name @ '' created successfully''), s')))"

section \<open>The advanced manager (utils/s3\_advanced.py)\<close>

subsection \<open>Rename\<close>

text \<open>
  The path computed at the head of \<^verbatim>\<open>rename_object\<close>:
  \<^verbatim>\<open>
    is_folder = old_path.endswith('/')
    path_parts = old_path.rstrip('/').split('/')
    parent_path = '/'.join(path_parts[:-1])
    if parent_path: new_path = f"{parent_path}/{new_name}"
    else:           new_path = new_name
    if is_folder:   new_path += '/'
  \<close>
\<close>

definition parent_path :: "key \<Rightarrow> string" where
  "parent_path old_path = join ''/'' (butlast (split CHR ''/'' (rstrip CHR ''/'' old_path)))"

definition new_path :: "key \<Rightarrow> string \<Rightarrow> key" where
  "new_path old_path new_name =
     (if parent_path old_path \<noteq> [] then parent_path old_path @ ''/'' @ new_name else new_name)
     @ (if endswith old_path ''/'' then ''/'' else [])"

text \<open>The inner loop over one page: copy each object to its new key, then delete it.\<close>

fun rename_keys :: "key \<Rightarrow> key \<Rightarrow> key list \<Rightarrow> s3 \<Rightarrow> (error + unit) \<times> s3" where
  "rename_keys old_path new_p [] s = (Inr (), s)"
| "rename_keys old_path new_p (old_key # rest) s =
     (case s3_copy_object old_key (replace_first old_path new_p old_key) s of
        (Inl e, s') \<Rightarrow> (Inl e, s')
      | (Inr u, s') \<Rightarrow>
          (case s3_delete_object old_key s' of
             (Inl e, s'') \<Rightarrow> (Inl e, s'')
           | (Inr u, s'') \<Rightarrow> rename_keys old_path new_p rest s''))"

text \<open>
  The outer loop over the paginator. The paginator is lazy: the next page is requested
  after the objects of the current page have been moved, so what it returns depends on
  the store as the moves have left it. The loop need not end (the new prefix may lie under
  the old one), so its result is an \<open>option\<close>.
\<close>

partial_function (option) rename_pages ::
  "key \<Rightarrow> key \<Rightarrow> listing option \<Rightarrow> s3 \<Rightarrow> ((error + unit) \<times> s3) option" where
  "rename_pages old_path new_p tok s =
     (case s3_list_objects_v2 old_path False tok s of
        (Inl e, s') \<Rightarrow> Some (Inl e, s')
      | (Inr page, s') \<Rightarrow>
          (case rename_keys old_path new_p (map fst (contents page)) s' of
             (Inl e, s'') \<Rightarrow> Some (Inl e, s'')
           | (Inr u, s'') \<Rightarrow>
               (case next_token page of
                  None \<Rightarrow> Some (Inr (), s'')
                | Some t \<Rightarrow> rename_pages old_path new_p (Some t) s'')))"

definition rename_object :: "key \<Rightarrow> string \<Rightarrow> s3 \<Rightarrow> ((bool \<times> string) \<times> s3) option" where
  "rename_object old_path new_name s =
     (if endswith old_path ''/''
      then
        (case rename_pages old_path (new_path old_path new_name) None s of
           None \<Rightarrow> None
         | Some (Inl e, s') \<Rightarrow> Some ((False, ''Rename failed: '' @ error_text e), s')
         | Some (Inr u, s') \<Rightarrow> Some ((True, ''Successfully renamed to '' @ new_name), s'))
      else
        (case s3_copy_object old_path (new_path old_path new_name) s of
           (Inl e, s') \<Rightarrow> Some ((False, ''Rename failed: '' @ error_text e), s')
         | (Inr u, s') \<Rightarrow>
             (case s3_delete_object old_path s' of
                (Inl e, s'') \<Rightarrow> Some ((False, ''Rename failed: '' @ error_text e), s'')
              | (Inr u, s'') \<Rightarrow> Some ((True, ''Successfully renamed to '' @ new_name), s''))))"

subsection \<open>Preview\<close>












subsection \<open>Folder size\<close>

text \<open>The inner loop over one page: \<^verbatim>\<open>total_size += obj['Size']; file_count += 1\<close>.\<close>

fun add_sizes :: "(key \<times> s3_object) list \<Rightarrow> int \<times> int \<Rightarrow> int \<times> int" where
  "add_sizes [] acc = acc"
| "add_sizes ((k, ob) # rest) (total_size, file_count) =
     add_sizes rest (total_size + int (length (body ob)), file_count + 1)"

function folder_pages ::
  "key \<Rightarrow> listing option \<Rightarrow> int \<times> int \<Rightarrow> s3 \<Rightarrow> (error + int \<times> int) \<times> s3" where
  "folder_pages folder_path tok acc s =
     (case s3_list_objects_v2 folder_path False tok s of
        (Inl e, s') \<Rightarrow> (Inl e, s')
      | (Inr page, s') \<Rightarrow>
          (case next_token page of
             None \<Rightarrow> (Inr (add_sizes (contents page) acc), s')
           | Some t \<Rightarrow> folder_pages folder_path (Some t) (add_sizes (contents page) acc) s'))"
  by pat_completeness auto

record folder_info =
  total_size :: int
  file_count :: int
  formatted_size :: string
  info_error :: "string option"

definition get_folder_size :: "key \<Rightarrow> s3 \<Rightarrow> folder_info \<times> s3" where
  "get_folder_size folder_path s =
     (case folder_pages
             (if \<not> endswith folder_path ''/'' then folder_path @ ''/'' else folder_path)
             None (0, 0) s of
        (Inl e, s') \<Rightarrow>
          (\<lparr>total_size = 0, file_count = 0, formatted_size = ''0 B'',
            info_error = Some (error_text e)\<rparr>, s')
      | (Inr (total_bytes, n_files), s') \<Rightarrow>
          (case adv_format_size total_bytes of
             Inl e \<Rightarrow>
               (\<lparr>total_size = 0, file_count = 0, formatted_size = ''0 B'',
                 info_error = Some (error_text e)\<rparr>, s')
           | Inr formatted \<Rightarrow>
               (\<lparr>total_size = total_bytes, file_count = n_files, formatted_size = formatted,
                 info_error = None\<rparr>, s')))"

subsection \<open>Search\<close>

text \<open>
  The inner loop over one page of \<^verbatim>\<open>search_files\<close>; \<open>results\<close> is the list the
  source appends to.
\<close>

fun search_page ::
  "string \<Rightarrow> (key \<times> s3_object) list \<Rightarrow> entry list \<Rightarrow> error + entry list" where
  "search_page search_lower [] results = Inr results"
| "search_page search_lower ((file_path, ob) # rest) results =
     (if sublist search_lower (lower (last (split CHR ''/'' file_path)))
      then
        (case adv_format_size (int (length (body ob))) of
           Inl e \<Rightarrow> Inl e
         | Inr sz \<Rightarrow>
             search_page search_lower rest
               (results @
                [\<lparr>e_name = last (split CHR ''/'' file_path), e_path = file_path,
                  e_type = (if endswith file_path ''/'' then Folder else File),
                  e_size = sz, e_size_bytes = None, e_modified = last_modified ob\<rparr>]))
      else search_page search_lower rest results)"

function search_pages ::
  "string \<Rightarrow> key \<Rightarrow> listing option \<Rightarrow> entry list \<Rightarrow> s3 \<Rightarrow> (error + entry list) \<times> s3" where
  "search_pages search_lower search_prefix tok results s =
     (case s3_list_objects_v2 search_prefix False tok s of
        (Inl e, s') \<Rightarrow> (Inl e, s')
      | (Inr page, s') \<Rightarrow>
          (case search_page search_lower (contents page) results of
             Inl e \<Rightarrow> (Inl e, s')
           | Inr results' \<Rightarrow>
               (case next_token page of
                  None \<Rightarrow> (Inr results', s')
                | Some t \<Rightarrow> search_pages search_lower search_prefix (Some t) results' s')))"
  by pat_completeness auto

text \<open>The body of \<^verbatim>\<open>search_files\<close> inside \<^verbatim>\<open>try\<close>.\<close>

definition search_files_try ::
  "string \<Rightarrow> string \<Rightarrow> string option \<Rightarrow> s3 \<Rightarrow> (error + entry list) \<times> s3" where
  "search_files_try app_root search_term path s =
     search_pages (lower search_term)
       (if truthy path then adv_format_path app_root path else app_root @ ''/'')
       None [] s"

text \<open>\<^verbatim>\<open>search_files\<close>: any exception is logged and the empty list returned.\<close>

definition search_files ::
  "string \<Rightarrow> string \<Rightarrow> string option \<Rightarrow> s3 \<Rightarrow> entry list \<times> s3" where
  "search_files app_root search_term path s =
     (case search_files_try app_root search_term path s of
        (Inl e, s') \<Rightarrow> ([], s')
      | (Inr results, s') \<Rightarrow> (results, s'))"

subsection \<open>Metadata\<close>






section \<open>Example stores\<close>






section \<open>Notions the claims are stated with\<close>

text \<open>The final segment of a key: what follows its last slash.\<close>

definition final_segment :: "key \<Rightarrow> string" where
  "final_segment k = rev (takeWhile (\<lambda>c. c \<noteq> CHR ''/'') (rev k))"

text \<open>The term occurs in the final segment of the key, case-insensitively.\<close>

definition name_matches :: "string \<Rightarrow> key \<Rightarrow> bool" where
  "name_matches search_term k = sublist (lower search_term) (lower (final_segment k))"

section \<open>Facts about the string operations\<close>

lemma endswith_suffix: "endswith s p = suffix p s"
  by (simp add: endswith_def suffix_to_prefix)

lemma endswith_snoc [simp]: "endswith (s @ [c]) [d] = (c = d)"
  by (auto simp: endswith_def)

lemma endswith_Nil [simp]: "endswith [] [d] = False"
  by (simp add: endswith_def)

lemma endswith_last: "endswith s [c] = (s \<noteq> [] \<and> last s = c)"
  by (cases s rule: rev_cases) simp_all

lemma startswith_hd: "startswith s [c] = (s \<noteq> [] \<and> hd s = c)"
  by (cases s) (auto simp: startswith_def)

lemma rstrip_not_endswith: "\<not> endswith (rstrip c s) [c]"
proof -
  have "dropWhile (\<lambda>x. x = c) (rev s) = [] \<or> hd (dropWhile (\<lambda>x. x = c) (rev s)) \<noteq> c"
    using hd_dropWhile [of "\<lambda>x. x = c" "rev s"] by blast
  then show ?thesis
    by (auto simp: rstrip_def endswith_last last_rev)
qed

lemma rstrip_id: "\<not> endswith s [c] \<Longrightarrow> rstrip c s = s"
  by (cases s rule: rev_cases) (simp_all add: rstrip_def)

lemma rstrip_snoc [simp]: "rstrip c (s @ [c]) = rstrip c s"
  by (simp add: rstrip_def)

lemma lstrip_id: "\<not> startswith s [c] \<Longrightarrow> dropWhile (\<lambda>x. x = c) s = s"
  by (cases s) (simp_all add: startswith_def)

lemma dropWhile_not_endswith:
  "\<not> endswith s [c] \<Longrightarrow> \<not> endswith (dropWhile (\<lambda>x. x = c) s) [c]"
proof (induction s)
  case Nil
  then show ?case by simp
next
  case (Cons a s)
  then show ?case by (cases s) (auto simp: endswith_last)
qed

lemma strip_trimmed: "trimmed c (strip c s)"
proof -
  have "\<not> endswith (strip c s) [c]"
    unfolding strip_def by (rule dropWhile_not_endswith) (rule rstrip_not_endswith)
  moreover have "\<not> startswith (strip c s) [c]"
    using hd_dropWhile [of "\<lambda>x. x = c" "rstrip c s"]
    by (auto simp: strip_def startswith_hd)
  ultimately show ?thesis by (simp add: trimmed_def)
qed

lemma strip_id: "trimmed c s \<Longrightarrow> strip c s = s"
  by (simp add: trimmed_def strip_def rstrip_id lstrip_id)

lemma strip_snoc [simp]: "strip c (s @ [c]) = strip c s"
  by (simp add: strip_def)

lemma trimmed_join:
  assumes "trimmed c a" "a \<noteq> []" "trimmed c b" "b \<noteq> []"
  shows "trimmed c (a @ [c] @ b)"
  using assms by (cases a) (auto simp: trimmed_def startswith_def endswith_last)

section \<open>Properties of the path formatter\<close>

lemma adv_format_path_eq: "adv_format_path r p = format_path r p"
  by (simp add: adv_format_path_def format_path_def)

text \<open>The three shapes an output of the formatter can have.\<close>

lemma format_path_cases:
  "format_path r p = r @ ''/'' \<or>
   (\<exists>s. s \<noteq> [] \<and> trimmed CHR ''/'' s \<and> startswith s r \<and> format_path r p = s @ ''/'') \<or>
   (\<exists>s. s \<noteq> [] \<and> trimmed CHR ''/'' s \<and> \<not> startswith s r
        \<and> format_path r p = r @ ''/'' @ s @ ''/'')"
proof (cases p)
  case None
  then show ?thesis by (simp add: format_path_def)
next
  case (Some q)
  let ?s = "strip CHR ''/'' q"
  have t: "trimmed CHR ''/'' ?s" by (rule strip_trimmed)
  then have ne: "\<not> endswith ?s ''/''" by (simp add: trimmed_def)
  show ?thesis
  proof (cases "q = []")
    case True
    with Some show ?thesis by (simp add: format_path_def)
  next
    case False
    show ?thesis
    proof (cases "startswith ?s r")
      case True
      show ?thesis
      proof (cases "?s = []")
        case True
        with \<open>startswith ?s r\<close> have "r = []" by (simp add: startswith_def)
        with True Some False show ?thesis by (simp add: format_path_def startswith_def)
      next
        case False
        with Some \<open>q \<noteq> []\<close> True ne t show ?thesis
          by (simp add: format_path_def)
      qed
    next
      case nsw: False
      show ?thesis
      proof (cases "?s = []")
        case True
        with Some False nsw show ?thesis by (simp add: format_path_def)
      next
        case False
        have "\<not> endswith (r @ ''/'' @ ?s) ''/''"
          using False ne by (simp add: endswith_last)
        with Some \<open>q \<noteq> []\<close> nsw False t show ?thesis
          by (simp add: format_path_def)
      qed
    qed
  qed
qed

lemma format_path_nonempty: "format_path r p \<noteq> []"
  using format_path_cases [of r p] by auto

lemma format_path_startswith_root: "startswith (format_path r p) r"
  using format_path_cases [of r p] by (auto simp: startswith_def)

lemma format_path_endswith_slash: "endswith (format_path r p) ''/''"
  using format_path_cases [of r p] by (auto simp: endswith_def)

lemma format_path_rooted_iff:
  "startswith (format_path r p) (r @ ''/'') = (\<not> root_lookalike r p)"
proof (cases p)
  case None
  then show ?thesis by (simp add: format_path_def root_lookalike_def startswith_def)
next
  case (Some q)
  let ?s = "strip CHR ''/'' q"
  have ne: "\<not> endswith ?s ''/''"
    using strip_trimmed [of "CHR ''/''" q] by (simp add: trimmed_def)
  show ?thesis
  proof (cases "q = []")
    case True
    with Some show ?thesis by (simp add: format_path_def root_lookalike_def startswith_def)
  next
    case False
    show ?thesis
    proof (cases "startswith ?s r")
      case True
      with Some False ne show ?thesis
        by (simp add: format_path_def root_lookalike_def)
    next
      case False
      with Some \<open>q \<noteq> []\<close> show ?thesis
        by (simp add: format_path_def root_lookalike_def startswith_def)
    qed
  qed
qed

lemma format_path_root: "trimmed CHR ''/'' r \<Longrightarrow> format_path r (Some (r @ ''/'')) = r @ ''/''"
proof -
  assume t: "trimmed CHR ''/'' r"
  have "strip CHR ''/'' (r @ ''/'') = r" using t by (simp add: strip_id)
  moreover have "\<not> endswith r ''/''" using t by (simp add: trimmed_def)
  ultimately show ?thesis by (simp add: format_path_def startswith_def)
qed

lemma format_path_idem:
  assumes r: "trimmed CHR ''/'' r"
  shows "format_path r (Some (format_path r p)) = format_path r p"
proof -
  consider (a) "format_path r p = r @ ''/''"
    | (b) s where "s \<noteq> []" "trimmed CHR ''/'' s" "startswith s r" "format_path r p = s @ ''/''"
    | (c) s where "s \<noteq> []" "trimmed CHR ''/'' s" "\<not> startswith s r"
        "format_path r p = r @ ''/'' @ s @ ''/''"
    using format_path_cases [of r p] by blast
  then show ?thesis
  proof cases
    case a
    then show ?thesis using r by (simp add: format_path_root)
  next
    case b
    have "strip CHR ''/'' (s @ ''/'') = s" using b(2) by (simp add: strip_id)
    moreover have "\<not> endswith s ''/''" using b(2) by (simp add: trimmed_def)
    ultimately show ?thesis using b by (simp add: format_path_def)
  next
    case c
    then have rne: "r \<noteq> []" by (auto simp: startswith_def)
    have t: "trimmed CHR ''/'' (r @ ''/'' @ s)"
      using trimmed_join [OF r rne c(2) c(1)] by simp
    have "strip CHR ''/'' ((r @ ''/'' @ s) @ ''/'') = r @ ''/'' @ s"
      using t by (simp only: strip_snoc strip_id)
    moreover have "\<not> endswith (r @ ''/'' @ s) ''/''" using t by (simp add: trimmed_def)
    moreover have "startswith (r @ ''/'' @ s) r" by (simp add: startswith_def)
    ultimately show ?thesis using c by (simp add: format_path_def)
  qed
qed

text \<open>
  Claim C3, as stated: for every input the output is non-empty, begins with the root prefix
  followed by a slash, and ends with a slash. The input \<^verbatim>\<open>"streamlit-app2"\<close> under the
  root \<^verbatim>\<open>"streamlit-app"\<close> starts with the root's characters, so nothing is prepended:
  the output \<^verbatim>\<open>"streamlit-app2/"\<close> does not begin with \<^verbatim>\<open>"streamlit-app/"\<close>.
\<close>

theorem format_path_rooted_slash_counterexample:
  "format_path ''streamlit-app'' (Some ''streamlit-app2'') = ''streamlit-app2/''
   \<and> \<not> startswith (format_path ''streamlit-app'' (Some ''streamlit-app2'')) (''streamlit-app'' @ ''/'')"
  by (simp add: format_path_def strip_def rstrip_def startswith_def endswith_def)

text \<open>
  Claim C3, amended: for every root prefix and every input (missing, empty or any string)
  both formatters return a string, never an error; the output is non-empty, begins with the
  characters of the root prefix and ends with a slash; it begins with the root prefix
  followed by a slash exactly when the input is not a root look-alike, that is, unless the
  slash-stripped input starts with the root prefix's characters followed by a character
  other than a slash.
\<close>

theorem format_path_shape:
  "format_path r p \<noteq> [] \<and> startswith (format_path r p) r \<and> endswith (format_path r p) ''/''
   \<and> (startswith (format_path r p) (r @ ''/'') = (\<not> root_lookalike r p))
   \<and> adv_format_path r p = format_path r p"
  using format_path_nonempty format_path_startswith_root format_path_endswith_slash
    format_path_rooted_iff adv_format_path_eq by blast

theorem format_path_shape_witness:
  "\<not> root_lookalike ''streamlit-app'' (Some ''/docs/2024//'')
   \<and> format_path ''streamlit-app'' (Some ''/docs/2024//'') = ''streamlit-app/docs/2024/''
   \<and> startswith (format_path ''streamlit-app'' (Some ''/docs/2024//'')) (''streamlit-app'' @ ''/'')"
  using format_path_shape [of "''streamlit-app''" "Some ''/docs/2024//''"]
  by (simp add: format_path_def root_lookalike_def strip_def rstrip_def startswith_def endswith_def)

lemma format_path_canonical:
  assumes "canonical_path r q"
  shows "format_path r (Some q) = q"
proof -
  from assms have e: "endswith q ''/''" and t: "trimmed CHR ''/'' (butlast q)"
    and sw: "startswith (butlast q) r"
    by (simp_all add: canonical_path_def)
  from e have q: "q = butlast q @ ''/''"
    by (cases q rule: rev_cases) (simp_all add: endswith_last)
  have "strip CHR ''/'' (butlast q @ ''/'') = butlast q"
    using t by (simp add: strip_id)
  moreover have "\<not> endswith (butlast q) ''/''" using t by (simp add: trimmed_def)
  ultimately have "format_path r (Some (butlast q @ ''/'')) = butlast q @ ''/''"
    using sw by (simp add: format_path_def)
  with q show ?thesis by simp
qed

lemma format_path_output_canonical:
  assumes r: "trimmed CHR ''/'' r"
  shows "canonical_path r (format_path r p)"
proof -
  consider (a) "format_path r p = r @ ''/''"
    | (b) s where "s \<noteq> []" "trimmed CHR ''/'' s" "startswith s r" "format_path r p = s @ ''/''"
    | (c) s where "s \<noteq> []" "trimmed CHR ''/'' s" "\<not> startswith s r"
        "format_path r p = r @ ''/'' @ s @ ''/''"
    using format_path_cases [of r p] by blast
  then show ?thesis
  proof cases
    case a
    with r show ?thesis by (simp add: canonical_path_def startswith_def)
  next
    case b
    then show ?thesis by (simp add: canonical_path_def)
  next
    case c
    then have rne: "r \<noteq> []" by (auto simp: startswith_def)
    have t: "trimmed CHR ''/'' (r @ ''/'' @ s)"
      using trimmed_join [OF r rne c(2) c(1)] by simp
    have "butlast (format_path r p) = r @ ''/'' @ s"
      using c(4) by (simp add: butlast_append)
    moreover have "endswith (format_path r p) ''/''"
      by (rule format_path_endswith_slash)
    ultimately show ?thesis using t by (simp add: canonical_path_def startswith_def)
  qed
qed

text \<open>
  Claim C4, as stated: the formatter is idempotent for every input, and an already rooted,
  already slash-terminated path is returned unchanged. Neither half holds as stated.
  Under the root \<^verbatim>\<open>"/root"\<close> the input \<^verbatim>\<open>"x"\<close> gives \<^verbatim>\<open>"/root/x/"\<close>, and
  formatting that again strips the leading slash and prepends the root a second time:
  \<^verbatim>\<open>"/root/root/x/"\<close>. Under the default root \<^verbatim>\<open>"streamlit-app"\<close> the path
  \<^verbatim>\<open>"streamlit-app/docs//"\<close> is rooted and ends with a slash, and is returned as
  \<^verbatim>\<open>"streamlit-app/docs/"\<close>.
\<close>

theorem format_path_idempotent_counterexample:
  "format_path ''/root'' (Some ''x'') = ''/root/x/''
   \<and> format_path ''/root'' (Some (format_path ''/root'' (Some ''x''))) = ''/root/root/x/''
   \<and> startswith ''streamlit-app/docs//'' (''streamlit-app'' @ ''/'')
   \<and> endswith ''streamlit-app/docs//'' ''/''
   \<and> format_path ''streamlit-app'' (Some ''streamlit-app/docs//'') = ''streamlit-app/docs/''"
  by (simp add: format_path_def strip_def rstrip_def startswith_def endswith_def)

text \<open>
  Claim C4, amended: for every root prefix that neither starts nor ends with a slash (such
  as the default \<^verbatim>\<open>"streamlit-app"\<close>) and every input \<open>p\<close>, both formatters satisfy
  \<open>format (format p) = format p\<close>; and under such a root a path \<open>q\<close> is returned
  unchanged exactly when it is in the output form: it ends with a slash, and what precedes
  that final slash starts with the root prefix and neither starts nor ends with a slash.
\<close>

theorem format_path_idempotent:
  assumes "trimmed CHR ''/'' r"
  shows "format_path r (Some (format_path r p)) = format_path r p
         \<and> adv_format_path r (Some (adv_format_path r p)) = adv_format_path r p
         \<and> ((format_path r (Some q) = q) = canonical_path r q)
         \<and> ((adv_format_path r (Some q) = q) = canonical_path r q)"
proof -
  have "(format_path r (Some q) = q) = canonical_path r q"
    using format_path_canonical [of r q] format_path_output_canonical [OF assms, of "Some q"]
    by auto
  then show ?thesis
    using assms by (simp add: adv_format_path_eq format_path_idem)
qed

theorem format_path_idempotent_witness:
  "trimmed CHR ''/'' ''streamlit-app''
   \<and> format_path ''streamlit-app'' (Some ''reports//'') = ''streamlit-app/reports/''
   \<and> format_path ''streamlit-app'' (Some ''streamlit-app/reports/'') = ''streamlit-app/reports/''
   \<and> canonical_path ''streamlit-app'' ''streamlit-app/reports/''"
proof -
  have t: "trimmed CHR ''/'' ''streamlit-app''"
    by (simp add: trimmed_def startswith_def endswith_def)
  have e: "format_path ''streamlit-app'' (Some ''reports//'') = ''streamlit-app/reports/''"
    by (simp add: format_path_def strip_def rstrip_def startswith_def endswith_def)
  have c: "canonical_path ''streamlit-app'' ''streamlit-app/reports/''"
    by (simp add: canonical_path_def trimmed_def startswith_def endswith_def)
  from format_path_idempotent [OF t, of "Some ''reports//''" "''streamlit-app/reports/''"] t e c
  show ?thesis by simp
qed
































section \<open>Facts about the gateway\<close>

lemma call_result:
  "call r s = (f, s') \<Longrightarrow>
     objects s' = objects s \<and> clock s' = clock s \<and> trace s' = trace s @ [r]"
  by (auto simp: call_def split: list.splits)


lemma lookup_cong: "objects s' = objects s \<Longrightarrow> lookup s' = lookup s"
  by (rule ext) (simp add: lookup_def)

lemma keys_after_cong: "objects s' = objects s \<Longrightarrow> keys_after s' = keys_after s"
  by (intro ext) (simp add: keys_after_def)

lemma list_page_cong: "objects s' = objects s \<Longrightarrow> list_page s' = list_page s"
proof -
  assume a: "objects s' = objects s"
  have "content_of s' = content_of s"
  proof
    fix x show "content_of s' x = content_of s x"
      by (cases x) (simp_all add: lookup_cong [OF a])
  qed
  then show ?thesis
    by (intro ext) (simp add: list_page_def entries_after_def keys_after_cong [OF a])
qed

lemma lookup_in_objects: "(lookup s k \<noteq> None) = (k \<in> set (map fst (objects s)))"
  by (simp add: lookup_def map_of_eq_None_iff)

lemma set_keys_after:
  "set (keys_after s p tok) = {k. lookup s k \<noteq> None \<and> startswith k p \<and> beyond tok k}"
proof -
  have eq: "\<And>k. (k \<in> set (map fst (objects s))) = (lookup s k \<noteq> None)"
    by (simp only: lookup_in_objects)
  have "set (keys_after s p tok)
        = {k. k \<in> set (map fst (objects s)) \<and> startswith k p \<and> beyond tok k}"
    by (auto simp: keys_after_def)
  then show ?thesis by (simp only: eq)
qed

lemma sorted_keys_after: "sorted (keys_after s p tok)"
  by (simp add: keys_after_def)

lemma distinct_keys_after: "distinct (keys_after s p tok)"
  by (simp add: keys_after_def)

text \<open>
  The keys under a prefix form an interval of the order, so a key after a token stays after
  it when it grows.
\<close>

lemma startswith_between:
  "p < k' \<Longrightarrow> k' < k \<Longrightarrow> startswith k p \<Longrightarrow> startswith k' p"
proof (induction p arbitrary: k k')
  case Nil
  then show ?case by (simp add: startswith_def)
next
  case (Cons a p)
  from Cons.prems(3) obtain k1 where k: "k = a # k1" and k1: "startswith k1 p"
    by (cases k) (auto simp: startswith_def)
  from Cons.prems(1) obtain b k1' where k': "k' = b # k1'"
    by (cases k') auto
  from Cons.prems(1,2) k k' have "a = b" "p < k1'" "k1' < k1"
    by (auto split: if_splits)
  with Cons.IH [of k1' k1] k1 k' show ?case
    by (simp add: startswith_def)
qed

lemma beyond_mono: "beyond tok k' \<Longrightarrow> k' < k \<Longrightarrow> beyond tok k"
proof (cases tok)
  case None
  then show ?thesis by simp
next
  case (Some t)
  assume a: "beyond tok k'" "k' < k"
  show ?thesis
  proof (cases t)
    case (Object x)
    with Some a show ?thesis by auto
  next
    case (CommonPrefix p)
    with Some a have "p < k'" "\<not> startswith k' p" by simp_all
    with a(2) startswith_between [of p k' k] CommonPrefix Some show ?thesis
      by auto
  qed
qed

lemma sorted_filter_beyond_last:
  assumes "sorted xs" "distinct xs" "0 < n" "n < length xs"
  shows "filter (\<lambda>k. last (take n xs) < k) xs = drop n xs"
proof -
  let ?a = "take n xs" and ?b = "drop n xs"
  have ne: "?a \<noteq> []" using assms(3,4) by auto
  have d: "set ?a \<inter> set ?b = {}"
    using assms(2) distinct_append [of ?a ?b] by simp
  have "sorted ?a \<and> sorted ?b \<and> (\<forall>x\<in>set ?a. \<forall>y\<in>set ?b. x \<le> y)"
    using assms(1) sorted_append [of ?a ?b] by simp
  then have sa: "sorted ?a" and le: "\<forall>x\<in>set ?a. \<forall>y\<in>set ?b. x \<le> y"
    by blast+
  have l: "last ?a \<in> set ?a" using ne by (rule last_in_set)
  have "\<forall>x\<in>set ?a. \<not> last ?a < x"
  proof
    fix x assume "x \<in> set ?a"
    then obtain i where i: "i < length ?a" "x = ?a ! i" by (auto simp: in_set_conv_nth)
    then have "?a ! i \<le> ?a ! (length ?a - 1)"
      using sa by (intro sorted_nth_mono) auto
    then show "\<not> last ?a < x" using i ne by (simp add: last_conv_nth)
  qed
  then have fa: "filter (\<lambda>k. last ?a < k) ?a = []" by simp
  have "\<forall>y\<in>set ?b. last ?a < y"
  proof
    fix y assume y: "y \<in> set ?b"
    with le l have "last ?a \<le> y" by blast
    moreover have "last ?a \<noteq> y" using d l y by blast
    ultimately show "last ?a < y" by simp
  qed
  then have fb: "filter (\<lambda>k. last ?a < k) ?b = ?b" by simp
  have "filter (\<lambda>k. last ?a < k) (?a @ ?b) = ?b"
    unfolding filter_append fa fb by simp
  then show ?thesis by simp
qed

lemma keys_after_filter:
  assumes "k' \<in> set (keys_after s p tok)"
  shows "keys_after s p (Some (Object k')) = filter (\<lambda>k. k' < k) (keys_after s p tok)"
proof -
  from assms have b: "beyond tok k'" by (simp add: set_keys_after)
  have "(\<lambda>k. startswith k p \<and> beyond (Some (Object k')) k)
        = (\<lambda>k. (startswith k p \<and> beyond tok k) \<and> k' < k)"
    using beyond_mono [OF b] by auto
  then have "keys_after s p (Some (Object k'))
             = sort (remdups (filter (\<lambda>k. (startswith k p \<and> beyond tok k) \<and> k' < k)
                  (map fst (objects s))))"
    by (simp add: keys_after_def)
  also have "\<dots> = filter (\<lambda>k. k' < k) (keys_after s p tok)"
    by (simp only: keys_after_def filter_sort remdups_filter [symmetric] filter_filter)
  finally show ?thesis .
qed

lemma keys_after_next:
  assumes "max_keys < length (keys_after s p tok)"
  shows "keys_after s p (Some (Object (last (take max_keys (keys_after s p tok)))))
         = drop max_keys (keys_after s p tok)"
proof -
  let ?A = "keys_after s p tok"
  have pos: "0 < max_keys" by (simp add: max_keys_def)
  then have "take max_keys ?A \<noteq> []" using assms by auto
  then have "last (take max_keys ?A) \<in> set (take max_keys ?A)" by (rule last_in_set)
  then have "last (take max_keys ?A) \<in> set ?A" by (rule in_set_takeD)
  then have "keys_after s p (Some (Object (last (take max_keys ?A))))
             = filter (\<lambda>k. last (take max_keys ?A) < k) ?A"
    by (rule keys_after_filter)
  also have "\<dots> = drop max_keys ?A"
    using sorted_keys_after distinct_keys_after pos assms by (rule sorted_filter_beyond_last)
  finally show ?thesis .
qed

text \<open>A listing without delimiter: the page and its token, in terms of the key list.\<close>

lemma content_of_keys:
  "set ks \<subseteq> {k. lookup s k \<noteq> None} \<Longrightarrow>
     map fst (concat (map (content_of s) (map Object ks))) = ks"
  by (induction ks) auto

lemma list_page_keys:
  "map fst (contents (list_page s p False tok)) = take max_keys (keys_after s p tok)"
proof -
  have "set (take max_keys (keys_after s p tok)) \<subseteq> {k. lookup s k \<noteq> None}"
    using set_take_subset [of max_keys "keys_after s p tok"] by (auto simp: set_keys_after)
  then show ?thesis
    using content_of_keys [of "take max_keys (keys_after s p tok)" s]
    by (simp add: list_page_def entries_after_def take_map)
qed

lemma list_page_token:
  "next_token (list_page s p False tok) =
     (if max_keys < length (keys_after s p tok)
      then Some (Object (last (take max_keys (keys_after s p tok)))) else None)"
proof -
  have "0 < max_keys" by (simp add: max_keys_def)
  then have "max_keys < length (keys_after s p tok) \<Longrightarrow> take max_keys (keys_after s p tok) \<noteq> []"
    by auto
  then show ?thesis
    by (simp add: list_page_def entries_after_def take_map last_map)
qed

lemma list_result:
  "s3_list_objects_v2 p d tok s = (r, s') \<Longrightarrow>
     objects s' = objects s \<and> clock s' = clock s \<and> trace s' = trace s @ [ListObjectsV2 p d tok]"
  by (auto simp: s3_list_objects_v2_def split: prod.splits bool.splits dest: call_result)

lemma list_ok:
  "s3_list_objects_v2 p d tok s = (Inr page, s') \<Longrightarrow> page = list_page s p d tok"
proof -
  assume a: "s3_list_objects_v2 p d tok s = (Inr page, s')"
  then have "objects s' = objects s" using list_result by blast
  then have "list_page s' = list_page s" by (rule list_page_cong)
  with a show ?thesis
    by (auto simp: s3_list_objects_v2_def split: prod.splits bool.splits dest: call_result)
qed

lemma list_progress:
  assumes "s3_list_objects_v2 p False tok s = (Inr page, s')" "next_token page = Some t"
  shows "length (keys_after s' p (Some t)) < length (keys_after s p tok)"
proof -
  have page: "page = list_page s p False tok" using assms(1) by (rule list_ok)
  have o: "keys_after s' = keys_after s"
    using assms(1) list_result keys_after_cong by blast
  from assms(2) page have m: "max_keys < length (keys_after s p tok)"
    and t: "t = Object (last (take max_keys (keys_after s p tok)))"
    by (auto simp: list_page_token split: if_splits)
  have "keys_after s p (Some t) = drop max_keys (keys_after s p tok)"
    unfolding t using m by (rule keys_after_next)
  then show ?thesis using m o by (simp add: max_keys_def)
qed

termination folder_pages
  by (relation "measure (\<lambda>(p, tok, acc, s). length (keys_after s p tok))")
     (auto intro: list_progress [OF sym])

termination search_pages
  by (relation "measure (\<lambda>(l, p, tok, acc, s). length (keys_after s p tok))")
     (auto intro: list_progress [OF sym])

declare search_pages.simps [simp del] folder_pages.simps [simp del]




section \<open>Facts about split and lower\<close>

lemma split_nonempty [simp]: "split c s \<noteq> []"
  by (induction s) (auto split: list.splits)

lemma split_no_sep: "c \<notin> set s \<Longrightarrow> split c s = [s]"
  by (induction s) auto

lemma split_append: "split c (a @ c # b) = split c a @ split c b"
proof (induction a)
  case Nil
  then show ?case by simp
next
  case (Cons x a)
  then show ?case by (cases "split c a") auto
qed

lemma last_split_endswith: "endswith s [c] \<Longrightarrow> last (split c s) = []"
proof -
  assume "endswith s [c]"
  then obtain a where "s = a @ [c]"
    by (cases s rule: rev_cases) (auto simp: endswith_def)
  then show ?thesis using split_append [of c a "[]"] by simp
qed

lemma lower_Nil_iff [simp]: "(lower s = []) = (s = [])"
  by (simp add: lower_def)

section \<open>Metadata\<close>






section \<open>Preview\<close>







end
